theory Spec2Isabelle
  imports Main "HOL-Library.Sublist"
begin

section \<open>The script \<open>fix_syntax.py\<close>\<close>

text \<open>
  The script reads the lines of one JavaScript file, rewrites two kinds of
  declarations into assignments on the lines that start with four spaces, writes the
  lines back to the same path and prints one message:
  \<^verbatim>\<open>
  with open(PATH, 'r') as f:
      lines = f.readlines()
  for i in range(len(lines)):
      if 'const userLanguage =' in lines[i] and '    ' in lines[i][:4]:
          lines[i] = lines[i].replace('const userLanguage =', 'userLanguage =')
      if 'const mainMenu =' in lines[i] and '    ' in lines[i][:4]:
          lines[i] = lines[i].replace('const mainMenu =', 'mainMenu =')
  with open(PATH, 'w') as f:
      f.writelines(lines)
  print("Fixed duplicate const declarations")
  \<close>
  A Python \<open>str\<close> is modelled as a \<open>string\<close>, the list \<open>lines\<close> as a
  \<open>string list\<close> updated by index, every exception as a value of \<open>error\<close>.
\<close>

subsection \<open>The string operations of Python that the script uses\<close>

text \<open>\<open>sub in s\<close>: \<open>sub\<close> occurs in \<open>s\<close> as a contiguous substring.\<close>

fun str_in :: "string \<Rightarrow> string \<Rightarrow> bool" where
  "str_in sub [] = (sub = [])"
| "str_in sub (c # cs) = (prefix sub (c # cs) \<or> str_in sub cs)"

text \<open>
  \<open>s.replace(old, new)\<close> without a count: every occurrence of \<open>old\<close>, found from
  left to right without overlap, is replaced by \<open>new\<close>. For the empty \<open>old\<close> Python
  puts \<open>new\<close> before every character and at the end.
\<close>

fun str_replace :: "string \<Rightarrow> string \<Rightarrow> string \<Rightarrow> string" where
  "str_replace old new [] = (if old = [] then new else [])"
| "str_replace old new (c # cs) =
     (if old = [] then new @ c # str_replace old new cs
      else if prefix old (c # cs)
        then new @ str_replace old new (drop (length old) (c # cs))
      else c # str_replace old new cs)"

text \<open>
  \<open>s.replace(old, new, 1)\<close>, the replacement of the first occurrence only. The script
  does not call it; it is what the specification's wording "replace the first
  occurrence" describes, and is here to be compared with \<open>str_replace\<close>.
\<close>

fun str_replace_first :: "string \<Rightarrow> string \<Rightarrow> string \<Rightarrow> string" where
  "str_replace_first old new [] = (if old = [] then new else [])"
| "str_replace_first old new (c # cs) =
     (if prefix old (c # cs) then new @ drop (length old) (c # cs)
      else c # str_replace_first old new cs)"

subsection \<open>The rewrite of one line\<close>

definition userLanguage_old :: string where
  "userLanguage_old = ''const userLanguage =''"

definition userLanguage_new :: string where
  "userLanguage_new = ''userLanguage =''"

definition mainMenu_old :: string where
  "mainMenu_old = ''const mainMenu =''"

definition mainMenu_new :: string where
  "mainMenu_new = ''mainMenu =''"

text \<open>The test \<open>'    ' in line[:4]\<close>: four spaces occur in the first four characters.\<close>

definition indented :: "string \<Rightarrow> bool" where
  "indented line = str_in ''    '' (take 4 line)"

text \<open>One \<open>if\<close> statement of the loop body, as a function of the line \<open>lines[i]\<close>.\<close>

definition apply_rule :: "string \<Rightarrow> string \<Rightarrow> string \<Rightarrow> string" where
  "apply_rule old new line =
     (if str_in old line \<and> indented line then str_replace old new line else line)"

text \<open>
  The two statements in sequence: the second one reads the line that the first one
  has stored.
\<close>

definition fix_line :: "string \<Rightarrow> string" where
  "fix_line line =
     apply_rule mainMenu_old mainMenu_new
       (apply_rule userLanguage_old userLanguage_new line)"

subsection \<open>The loop over the indices\<close>

datatype error =
  IndexError | FileNotFoundError | PermissionError | UnicodeDecodeError | OSError

text \<open>
  The body of the loop at index \<open>i\<close>, on the list itself: each \<open>if\<close> reads
  \<open>lines[i]\<close> and stores into \<open>lines[i]\<close>. An index outside the list raises.
\<close>

definition rule_at :: "string \<Rightarrow> string \<Rightarrow> nat \<Rightarrow> string list \<Rightarrow> error + string list" where
  "rule_at old new i lines =
     (if i < length lines
      then (if str_in old (lines ! i) \<and> str_in ''    '' (take 4 (lines ! i))
            then Inr (lines[i := str_replace old new (lines ! i)])
            else Inr lines)
      else Inl IndexError)"

definition loop_body :: "nat \<Rightarrow> string list \<Rightarrow> error + string list" where
  "loop_body i lines =
     (case rule_at userLanguage_old userLanguage_new i lines of
        Inl e \<Rightarrow> Inl e
      | Inr lines1 \<Rightarrow> rule_at mainMenu_old mainMenu_new i lines1)"

text \<open>
  \<open>for i in range(len(lines))\<close>: the bound \<open>n\<close> is computed once, before the first
  iteration; \<open>i\<close> runs from its start value up to \<open>n - 1\<close>.
\<close>

function rewrite_from :: "nat \<Rightarrow> nat \<Rightarrow> string list \<Rightarrow> error + string list" where
  "rewrite_from i n lines =
     (if i < n
      then (case loop_body i lines of
              Inl e \<Rightarrow> Inl e
            | Inr lines' \<Rightarrow> rewrite_from (Suc i) n lines')
      else Inr lines)"
  by pat_completeness auto
termination
  by (relation "measure (\<lambda>(i, n, lines). n - i)") auto

declare rewrite_from.simps [simp del]

definition rewrite_lines :: "string list \<Rightarrow> error + string list" where
  "rewrite_lines lines = rewrite_from 0 (length lines) lines"

subsection \<open>The file and the standard output\<close>

text \<open>The calls on the file that the script makes.\<close>

datatype io_event = OpenRead | ReadLines | OpenWrite | WriteLines

text \<open>
  The part of the world that the script touches: the text of the file at the fixed
  path as text-mode I/O presents it (\<open>None\<close> when there is no such file), whether the
  file can be opened for reading, the exception that reading an opened file raises, if
  any (\<open>UnicodeDecodeError\<close> for bytes that do not decode, \<open>OSError\<close> for a failing
  device), whether the file can be opened for writing, what has been printed so far,
  and the calls made on the file so far, in order, whether they succeeded or not.
\<close>

record world =
  resource :: "string option"
  readable :: bool
  read_fault :: "error option"
  writable :: bool
  stdout :: string
  trace :: "io_event list"

definition called :: "io_event \<Rightarrow> world \<Rightarrow> world" where
  "called ev w = w\<lparr>trace := trace w @ [ev]\<rparr>"

definition newline :: char where
  "newline = CHR 0x0A"

text \<open>
  \<open>open(PATH, 'r')\<close>: raises when there is no file or it may not be read, and
  otherwise gives the opened file, which stands for the text behind it.
\<close>

definition open_read :: "world \<Rightarrow> (error + string) \<times> world" where
  "open_read w =
     (case resource w of
        None \<Rightarrow> Inl FileNotFoundError
      | Some txt \<Rightarrow> if readable w then Inr txt else Inl PermissionError,
      called OpenRead w)"

text \<open>The text cut after every newline, the newlines kept.\<close>

fun readlines :: "string \<Rightarrow> string list" where
  "readlines [] = []"
| "readlines (c # cs) =
     (if c = newline then [c] # readlines cs
      else (case readlines cs of
              [] \<Rightarrow> [[c]]
            | l # ls \<Rightarrow> (c # l) # ls))"

text \<open>
  \<open>f.readlines()\<close> on the opened file \<open>f\<close>: raises when reading or decoding
  fails, and otherwise gives the lines of the text.
\<close>

definition read_lines :: "string \<Rightarrow> world \<Rightarrow> (error + string list) \<times> world" where
  "read_lines f w =
     (case read_fault w of
        Some e \<Rightarrow> Inl e
      | None \<Rightarrow> Inr (readlines f),
      called ReadLines w)"

text \<open>
  \<open>open(PATH, 'w')\<close> truncates the file, or raises and leaves it as it is;
  \<open>f.writelines(lines)\<close> then writes the strings one after the other.
\<close>

definition open_write :: "world \<Rightarrow> (error + unit) \<times> world" where
  "open_write w =
     (if writable w then (Inr (), called OpenWrite (w\<lparr>resource := Some []\<rparr>))
      else (Inl PermissionError, called OpenWrite w))"

definition writelines :: "string list \<Rightarrow> world \<Rightarrow> world" where
  "writelines lines w =
     called WriteLines
       (w\<lparr>resource := Some (case resource w of None \<Rightarrow> concat lines
                                             | Some txt \<Rightarrow> txt @ concat lines)\<rparr>)"

definition print :: "string \<Rightarrow> world \<Rightarrow> world" where
  "print msg w = w\<lparr>stdout := stdout w @ msg @ [newline]\<rparr>"

definition confirmation :: string where
  "confirmation = ''Fixed duplicate const declarations''"

text \<open>
  The whole script. The result is the exception that ended it, if any, and the world
  it leaves behind. The file is opened for writing only after \<open>open\<close> for reading,
  \<open>readlines\<close> and the loop have all returned.
\<close>

definition fix_syntax :: "world \<Rightarrow> error option \<times> world" where
  "fix_syntax w =
     (case open_read w of
        (Inl e, w1) \<Rightarrow> (Some e, w1)
      | (Inr f, w1) \<Rightarrow>
          (case read_lines f w1 of
             (Inl e, w2) \<Rightarrow> (Some e, w2)
           | (Inr lines, w2) \<Rightarrow>
               (case rewrite_lines lines of
                  Inl e \<Rightarrow> (Some e, w2)
                | Inr lines' \<Rightarrow>
                    (case open_write w2 of
                       (Inl e, w3) \<Rightarrow> (Some e, w3)
                     | (Inr u, w3) \<Rightarrow> (None, print confirmation (writelines lines' w3))))))"

subsection \<open>Auxiliary predicates on lists of lines\<close>

text \<open>A line as \<open>readlines\<close> produces it: not empty, a newline at most at its end.\<close>

definition is_line :: "string \<Rightarrow> bool" where
  "is_line l \<longleftrightarrow> l \<noteq> [] \<and> newline \<notin> set (butlast l)"

text \<open>
  A list of lines as \<open>readlines\<close> produces it: every line but the last one ends
  with a newline.
\<close>

fun lines_ok :: "string list \<Rightarrow> bool" where
  "lines_ok [] = True"
| "lines_ok [l] = is_line l"
| "lines_ok (l # ls) = (is_line l \<and> last l = newline \<and> lines_ok ls)"

section \<open>Properties\<close>

subsection \<open>The loop is a map of \<open>fix_line\<close>\<close>

lemma indented_iff: "indented line \<longleftrightarrow> take 4 line = ''    ''"
proof (cases line)
  case Nil
  then show ?thesis by (simp add: indented_def)
next
  case (Cons a l1)
  note c1 = Cons
  show ?thesis
  proof (cases l1)
    case Nil
    with c1 show ?thesis by (simp add: indented_def)
  next
    case (Cons b l2)
    note c2 = Cons
    show ?thesis
    proof (cases l2)
      case Nil
      with c1 c2 show ?thesis by (simp add: indented_def)
    next
      case (Cons c l3)
      note c3 = Cons
      show ?thesis
      proof (cases l3)
        case Nil
        with c1 c2 c3 show ?thesis by (simp add: indented_def)
      next
        case (Cons d l4)
        with c1 c2 c3 show ?thesis by (auto simp add: indented_def)
      qed
    qed
  qed
qed

lemma rule_at_eq:
  "i < length lines \<Longrightarrow>
   rule_at old new i lines = Inr (lines[i := apply_rule old new (lines ! i)])"
  by (simp add: rule_at_def apply_rule_def indented_def)

lemma loop_body_eq:
  "i < length lines \<Longrightarrow> loop_body i lines = Inr (lines[i := fix_line (lines ! i)])"
  by (simp add: loop_body_def rule_at_eq fix_line_def)

lemma rewrite_from_eq:
  "n = length lines \<Longrightarrow> i \<le> n \<Longrightarrow>
   rewrite_from i n lines = Inr (take i lines @ map fix_line (drop i lines))"
proof (induction i n lines rule: rewrite_from.induct)
  case (1 i n lines)
  show ?case
  proof (cases "i < n")
    case False
    with "1.prems" show ?thesis by (subst rewrite_from.simps) simp
  next
    case True
    let ?ls = "lines[i := fix_line (lines ! i)]"
    from True "1.prems" have lt: "i < length lines" by simp
    then have body: "loop_body i lines = Inr ?ls" by (rule loop_body_eq)
    have "rewrite_from (Suc i) n ?ls
            = Inr (take (Suc i) ?ls @ map fix_line (drop (Suc i) ?ls))"
      using "1.IH" [OF True body] "1.prems" True by simp
    moreover have "take (Suc i) ?ls = take i lines @ [fix_line (lines ! i)]"
      using lt by (simp add: take_Suc_conv_app_nth)
    moreover have "drop i lines = lines ! i # drop (Suc i) lines"
      using lt by (simp add: Cons_nth_drop_Suc)
    ultimately show ?thesis
      using True body by (subst rewrite_from.simps) simp
  qed
qed

lemma rewrite_lines_map: "rewrite_lines lines = Inr (map fix_line lines)"
  by (simp add: rewrite_lines_def rewrite_from_eq)

subsection \<open>Facts about the string operations\<close>

lemma str_replace_absent:
  "\<not> str_in old s \<Longrightarrow> str_replace old new s = s"
  by (induction s) auto

lemma apply_rule_absent: "\<not> str_in old line \<Longrightarrow> apply_rule old new line = line"
  by (simp add: apply_rule_def)

lemma apply_rule_not_indented: "\<not> indented line \<Longrightarrow> apply_rule old new line = line"
  by (simp add: apply_rule_def)

lemma fix_line_absent:
  "\<not> str_in userLanguage_old line \<Longrightarrow> \<not> str_in mainMenu_old line \<Longrightarrow> fix_line line = line"
  by (simp add: fix_line_def apply_rule_absent)

lemma fix_line_not_indented: "\<not> indented line \<Longrightarrow> fix_line line = line"
  by (simp add: fix_line_def apply_rule_not_indented)

lemma concat_readlines: "concat (readlines s) = s"
  by (induction s) (auto split: list.splits)

subsection \<open>Occurrences and lengths\<close>

lemma str_in_iff: "str_in sub s \<longleftrightarrow> (\<exists>pre post. s = pre @ sub @ post)"
proof (induction s)
  case Nil
  then show ?case by auto
next
  case (Cons c cs)
  show ?case
  proof
    assume "str_in sub (c # cs)"
    then consider "prefix sub (c # cs)" | "str_in sub cs" by auto
    then show "\<exists>pre post. c # cs = pre @ sub @ post"
    proof cases
      case 1
      then obtain post where "c # cs = sub @ post" by (auto simp: prefix_def)
      then have "c # cs = [] @ sub @ post" by simp
      then show ?thesis by blast
    next
      case 2
      with Cons.IH obtain pre post where "cs = pre @ sub @ post" by blast
      then have "c # cs = (c # pre) @ sub @ post" by simp
      then show ?thesis by blast
    qed
  next
    assume "\<exists>pre post. c # cs = pre @ sub @ post"
    then obtain pre post where eq: "c # cs = pre @ sub @ post" by blast
    show "str_in sub (c # cs)"
    proof (cases pre)
      case Nil
      with eq have "prefix sub (c # cs)" by (simp add: prefix_def)
      then show ?thesis by simp
    next
      case (Cons a pre')
      with eq have "cs = pre' @ sub @ post" by simp
      with Cons.IH have "str_in sub cs" by blast
      then show ?thesis by simp
    qed
  qed
qed

lemma str_in_drop: "str_in sub (drop n s) \<Longrightarrow> str_in sub s"
  unfolding str_in_iff
  by (metis append.assoc append_take_drop_id)

lemma str_in_Cons: "str_in sub s \<Longrightarrow> str_in sub (c # s)"
  by simp

lemma str_in_append_no_head:
  "X \<noteq> [] \<Longrightarrow> hd X \<notin> set new \<Longrightarrow> str_in X (new @ t) = str_in X t"
  by (induction new) (auto simp: prefix_Cons)

lemma length_str_replace_le:
  "length new \<le> length old \<Longrightarrow> length (str_replace old new s) \<le> length s"
proof (induction old new s rule: str_replace.induct)
  case (1 old new)
  then show ?case by auto
next
  case (2 old new c cs)
  show ?case
  proof (cases "old \<noteq> [] \<and> prefix old (c # cs)")
    case True
    then have "prefix old (c # cs)" by simp
    then have len: "length old \<le> length (c # cs)" by (rule prefix_length_le)
    from True "2.IH"(2) "2.prems"
    have "length (str_replace old new (drop (length old) (c # cs)))
            \<le> length (c # cs) - length old"
      by simp
    with len "2.prems" True show ?thesis by simp
  next
    case False
    with 2 show ?thesis by auto
  qed
qed

lemma length_str_replace_less:
  "length new < length old \<Longrightarrow> str_in old s \<Longrightarrow> length (str_replace old new s) < length s"
proof (induction old new s rule: str_replace.induct)
  case (1 old new)
  then show ?case by simp
next
  case (2 old new c cs)
  show ?case
  proof (cases "prefix old (c # cs)")
    case True
    from "2.prems" have "length new \<le> length old" by simp
    then have "length (str_replace old new (drop (length old) (c # cs)))
                 \<le> length (drop (length old) (c # cs))"
      by (rule length_str_replace_le)
    moreover have "length old \<le> length (c # cs)" using True by (rule prefix_length_le)
    ultimately show ?thesis using True "2.prems" by auto
  next
    case False
    with 2 show ?thesis by auto
  qed
qed

lemma replace_step_other:
  assumes "old \<noteq> []" and "new \<noteq> []" and "x \<noteq> hd new"
    and "prefix (x # xs) (str_replace old new s)"
  shows "\<exists>s'. s = x # s' \<and> \<not> prefix old s \<and> prefix xs (str_replace old new s')"
proof (cases s)
  case Nil
  with assms show ?thesis by simp
next
  case (Cons c cs)
  show ?thesis
  proof (cases "prefix old s")
    case True
    with Cons assms(1) have "str_replace old new s = new @ str_replace old new (drop (length old) s)"
      by simp
    with assms(2,4) have "x = hd new" by (cases new) auto
    with assms(3) show ?thesis by simp
  next
    case False
    with Cons assms(1,4) show ?thesis by auto
  qed
qed

lemma replace_steps_other:
  assumes "old \<noteq> []" and "new \<noteq> []"
  shows "hd new \<notin> set A \<Longrightarrow> prefix (A @ B) (str_replace old new s) \<Longrightarrow>
         \<exists>s'. s = A @ s' \<and> prefix B (str_replace old new s')"
proof (induction A arbitrary: s)
  case Nil
  then show ?case by simp
next
  case (Cons a A)
  from Cons.prems have "a \<noteq> hd new" by auto
  moreover from Cons.prems have "prefix (a # (A @ B)) (str_replace old new s)" by simp
  ultimately obtain s1 where s1: "s = a # s1" "prefix (A @ B) (str_replace old new s1)"
    using replace_step_other [OF assms] by blast
  with Cons.IH [of s1] Cons.prems obtain s' where "s1 = A @ s'" "prefix B (str_replace old new s')"
    by auto
  with s1 show ?case by simp
qed

lemma replace_step_same:
  assumes "old \<noteq> []" and "prefix (x # xs) (str_replace old new s)"
  shows "(prefix old s \<and> prefix (x # xs) (new @ str_replace old new (drop (length old) s)))
       \<or> (\<exists>s'. s = x # s' \<and> \<not> prefix old s \<and> prefix xs (str_replace old new s'))"
proof (cases s)
  case Nil
  with assms show ?thesis by simp
next
  case (Cons c cs)
  with assms show ?thesis by (cases "prefix old s") auto
qed

lemma str_in_replace_general:
  assumes "old \<noteq> []" and "X \<noteq> []" and "hd X \<notin> set new"
    and step: "\<And>s. prefix X (str_replace old new s) \<Longrightarrow> \<not> prefix old s \<Longrightarrow> str_in Y s"
  shows "str_in X (str_replace old new s) \<Longrightarrow> str_in Y s"
proof (induction "length s" arbitrary: s rule: less_induct)
  case less
  show ?case
  proof (cases s)
    case Nil
    with less.prems assms show ?thesis by simp
  next
    case (Cons c cs)
    show ?thesis
    proof (cases "prefix old s")
      case True
      let ?r = "drop (length old) s"
      from True Cons assms(1) have "str_replace old new s = new @ str_replace old new ?r"
        by simp
      with less.prems assms(2,3) have "str_in X (str_replace old new ?r)"
        by (simp add: str_in_append_no_head)
      moreover have "length ?r < length s" using Cons assms(1) by simp
      ultimately have "str_in Y ?r" by (rule less.hyps [rotated])
      then show ?thesis by (rule str_in_drop)
    next
      case False
      with Cons assms(1) have eq: "str_replace old new s = c # str_replace old new cs" by simp
      with less.prems consider "prefix X (str_replace old new s)" | "str_in X (str_replace old new cs)"
        by auto
      then show ?thesis
      proof cases
        case 1
        then show ?thesis using False by (rule step)
      next
        case 2
        moreover have "length cs < length s" using Cons by simp
        ultimately have "str_in Y cs" by (rule less.hyps [rotated])
        with Cons show ?thesis by simp
      qed
    qed
  qed
qed

subsection \<open>Neither rule creates an occurrence of the other rule's target\<close>

lemmas rule_strings = userLanguage_old_def userLanguage_new_def mainMenu_old_def mainMenu_new_def

lemma mainMenu_keeps_userLanguage:
  "str_in userLanguage_old (str_replace mainMenu_old mainMenu_new s) \<Longrightarrow> str_in userLanguage_old s"
proof (rule str_in_replace_general [where X = userLanguage_old and old = mainMenu_old and new = mainMenu_new])
  fix t
  assume "prefix userLanguage_old (str_replace mainMenu_old mainMenu_new t)"
  then have "prefix (userLanguage_old @ []) (str_replace mainMenu_old mainMenu_new t)" by simp
  then have "\<exists>s'. t = userLanguage_old @ s' \<and> prefix [] (str_replace mainMenu_old mainMenu_new s')"
    by (rule replace_steps_other [rotated 3]) (simp_all add: rule_strings)
  then show "str_in userLanguage_old t" by (auto simp: str_in_iff)
qed (simp_all add: rule_strings)

lemma userLanguage_step_mainMenu:
  assumes "prefix (A @ ''u ='') (str_replace userLanguage_old userLanguage_new t)"
    and "CHR ''u'' \<notin> set A"
  shows "prefix (A @ ''u ='') t"
proof -
  from assms obtain t1 where t1: "t = A @ t1"
      "prefix ''u ='' (str_replace userLanguage_old userLanguage_new t1)"
    using replace_steps_other [of userLanguage_old userLanguage_new A "''u =''" t]
    by (auto simp add: rule_strings)
  then consider
      "prefix userLanguage_old t1 \<and> prefix ''u =''
         (userLanguage_new @ str_replace userLanguage_old userLanguage_new (drop (length userLanguage_old) t1))"
    | t2 where "t1 = CHR ''u'' # t2" "prefix '' ='' (str_replace userLanguage_old userLanguage_new t2)"
    using replace_step_same [of userLanguage_old "CHR ''u''" "'' =''" userLanguage_new t1]
    by (auto simp add: rule_strings)
  then show ?thesis
  proof cases
    case 1
    then show ?thesis by (simp add: rule_strings)
  next
    case 2
    then obtain t3 where "t2 = '' ='' @ t3"
      using replace_steps_other [of userLanguage_old userLanguage_new "'' =''" "[]" t2]
      by (auto simp add: rule_strings)
    with 2 t1 show ?thesis by simp
  qed
qed

lemma userLanguage_keeps_mainMenu:
  "str_in mainMenu_old (str_replace userLanguage_old userLanguage_new s) \<Longrightarrow> str_in mainMenu_old s"
proof (rule str_in_replace_general [where X = mainMenu_old and old = userLanguage_old and new = userLanguage_new])
  fix t
  assume "prefix mainMenu_old (str_replace userLanguage_old userLanguage_new t)"
  then have "prefix (''const mainMen'' @ ''u ='') (str_replace userLanguage_old userLanguage_new t)"
    by (simp add: rule_strings)
  then have "prefix (''const mainMen'' @ ''u ='') t"
    by (rule userLanguage_step_mainMenu) simp
  then have "prefix mainMenu_old t" by (simp add: rule_strings)
  then show "str_in mainMenu_old t" by (auto simp: str_in_iff prefix_def)
qed (simp_all add: rule_strings)

lemma userLanguage_keeps_const_mainMenu:
  "str_in (''const '' @ mainMenu_old) (str_replace userLanguage_old userLanguage_new s)
   \<Longrightarrow> str_in (''const '' @ mainMenu_old) s"
proof (rule str_in_replace_general [where X = "''const '' @ mainMenu_old" and old = userLanguage_old and new = userLanguage_new])
  fix t
  assume "prefix (''const '' @ mainMenu_old) (str_replace userLanguage_old userLanguage_new t)"
  then have "prefix (''const const mainMen'' @ ''u ='') (str_replace userLanguage_old userLanguage_new t)"
    by (simp add: rule_strings)
  then have "prefix (''const const mainMen'' @ ''u ='') t"
    by (rule userLanguage_step_mainMenu) simp
  then have "prefix (''const '' @ mainMenu_old) t" by (simp add: rule_strings)
  then show "str_in (''const '' @ mainMenu_old) t" by (auto simp: str_in_iff prefix_def)
qed (simp_all add: rule_strings)

subsection \<open>A rule leaves its own target behind only after a doubled \<open>const\<close>\<close>

lemma replace_steps_through:
  assumes "old \<noteq> []" and "new \<noteq> []"
    and "hd new \<notin> set A" and "hd new \<notin> set B"
    and clash: "\<And>z. \<not> prefix (hd new # B) (new @ z)"
    and pre: "prefix (A @ hd new # B) (str_replace old new t)"
  shows "prefix (A @ hd new # B) t"
proof -
  from pre assms(3) obtain t1 where t1: "t = A @ t1"
      "prefix (hd new # B) (str_replace old new t1)"
    using replace_steps_other [OF assms(1,2), of A "hd new # B" t] by auto
  from replace_step_same [OF assms(1) t1(2)] clash
  obtain t2 where t2: "t1 = hd new # t2" "prefix B (str_replace old new t2)"
    by blast
  then have "prefix (B @ []) (str_replace old new t2)" by simp
  with assms(4) obtain t3 where "t2 = B @ t3"
    using replace_steps_other [OF assms(1,2), of B "[]" t2] by auto
  with t1 t2 show ?thesis by simp
qed

lemma userLanguage_from_const_const:
  "str_in userLanguage_old (str_replace userLanguage_old userLanguage_new s)
   \<Longrightarrow> str_in (''const '' @ userLanguage_old) s"
proof (rule str_in_replace_general [where X = userLanguage_old and old = userLanguage_old and new = userLanguage_new])
  fix t
  assume out: "prefix userLanguage_old (str_replace userLanguage_old userLanguage_new t)"
    and no: "\<not> prefix userLanguage_old t"
  from out have "prefix (''const '' @ userLanguage_new) (str_replace userLanguage_old userLanguage_new t)"
    by (simp add: rule_strings)
  then obtain t1 where t1: "t = ''const '' @ t1"
      "prefix userLanguage_new (str_replace userLanguage_old userLanguage_new t1)"
    using replace_steps_other [of userLanguage_old userLanguage_new "''const ''" userLanguage_new t]
    by (auto simp add: rule_strings)
  show "str_in (''const '' @ userLanguage_old) t"
  proof (cases "prefix userLanguage_old t1")
    case True
    with t1 have "prefix (''const '' @ userLanguage_old) t" by simp
    then show ?thesis by (auto simp: str_in_iff prefix_def)
  next
    case False
    from t1(2) have "prefix (CHR ''u'' # ''serLanguage ='') (str_replace userLanguage_old userLanguage_new t1)"
      by (simp add: rule_strings)
    with False obtain t2 where t2: "t1 = CHR ''u'' # t2"
        "prefix ''serLanguage ='' (str_replace userLanguage_old userLanguage_new t2)"
      using replace_step_same [of userLanguage_old "CHR ''u''" "''serLanguage =''" userLanguage_new t1]
      by (auto simp add: rule_strings)
    from t2(2) have "prefix (''serLang'' @ hd userLanguage_new # ''age ='')
                       (str_replace userLanguage_old userLanguage_new t2)"
      by (simp add: rule_strings)
    then have "prefix (''serLang'' @ hd userLanguage_new # ''age ='') t2"
      by (rule replace_steps_through [rotated 5]) (simp_all add: rule_strings)
    with t1 t2 have "prefix userLanguage_old t" by (simp add: rule_strings)
    with no show ?thesis by simp
  qed
qed (simp_all add: rule_strings)

lemma mainMenu_from_const_const:
  "str_in mainMenu_old (str_replace mainMenu_old mainMenu_new s)
   \<Longrightarrow> str_in (''const '' @ mainMenu_old) s"
proof (rule str_in_replace_general [where X = mainMenu_old and old = mainMenu_old and new = mainMenu_new])
  fix t
  assume out: "prefix mainMenu_old (str_replace mainMenu_old mainMenu_new t)"
    and no: "\<not> prefix mainMenu_old t"
  from out have "prefix (''const '' @ mainMenu_new) (str_replace mainMenu_old mainMenu_new t)"
    by (simp add: rule_strings)
  then obtain t1 where t1: "t = ''const '' @ t1"
      "prefix mainMenu_new (str_replace mainMenu_old mainMenu_new t1)"
    using replace_steps_other [of mainMenu_old mainMenu_new "''const ''" mainMenu_new t]
    by (auto simp add: rule_strings)
  show "str_in (''const '' @ mainMenu_old) t"
  proof (cases "prefix mainMenu_old t1")
    case True
    with t1 have "prefix (''const '' @ mainMenu_old) t" by simp
    then show ?thesis by (auto simp: str_in_iff prefix_def)
  next
    case False
    from t1(2) have "prefix (CHR ''m'' # ''ainMenu ='') (str_replace mainMenu_old mainMenu_new t1)"
      by (simp add: rule_strings)
    with False obtain t2 where t2: "t1 = CHR ''m'' # t2"
        "prefix (''ainMenu ='' @ []) (str_replace mainMenu_old mainMenu_new t2)"
      using replace_step_same [of mainMenu_old "CHR ''m''" "''ainMenu =''" mainMenu_new t1]
      by (auto simp add: rule_strings)
    then obtain t3 where "t2 = ''ainMenu ='' @ t3"
      using replace_steps_other [of mainMenu_old mainMenu_new "''ainMenu =''" "[]" t2]
      by (auto simp add: rule_strings)
    with t1 t2 have "prefix mainMenu_old t" by (simp add: rule_strings)
    with no show ?thesis by simp
  qed
qed (simp_all add: rule_strings)

lemma str_in_append_left: "str_in sub t \<Longrightarrow> str_in sub (p @ t)"
  by (induction p) simp_all

lemma str_in_survives_general:
  assumes "old \<noteq> []"
    and skip: "\<And>t. prefix old t \<Longrightarrow> str_in X t \<Longrightarrow> str_in X (drop (length old) t)"
    and here: "\<And>t. prefix X t \<Longrightarrow> \<not> prefix old t \<Longrightarrow> str_in X' (str_replace old new t)"
  shows "str_in X s \<Longrightarrow> str_in X' (str_replace old new s)"
proof (induction "length s" arbitrary: s rule: less_induct)
  case less
  show ?case
  proof (cases "prefix old s")
    case True
    then obtain c cs where Cons: "s = c # cs" using assms(1) by (cases s) auto
    let ?r = "drop (length old) s"
    from True less.prems have "str_in X ?r" by (rule skip)
    moreover have "length ?r < length s" using Cons assms(1) by simp
    ultimately have "str_in X' (str_replace old new ?r)" by (rule less.hyps [rotated])
    then have "str_in X' (new @ str_replace old new ?r)" by (rule str_in_append_left)
    with True Cons assms(1) show ?thesis by simp
  next
    case False
    show ?thesis
    proof (cases "prefix X s")
      case True
      then show ?thesis using False by (rule here)
    next
      case noX: False
      with less.prems obtain c cs where Cons: "s = c # cs" "str_in X cs"
        by (cases s) auto
      then have "str_in X' (str_replace old new cs)" using less.hyps [of cs] by simp
      with Cons False assms(1) show ?thesis by simp
    qed
  qed
qed

subsection \<open>Occurrences that survive a rule, and the first occurrence\<close>

lemma const_userLanguage_survives:
  "str_in (''const '' @ userLanguage_old) s
   \<Longrightarrow> str_in userLanguage_old (str_replace userLanguage_old userLanguage_new s)"
proof (rule str_in_survives_general [where X = "''const '' @ userLanguage_old" and old = userLanguage_old])
  fix t
  assume "prefix userLanguage_old t" and "str_in (''const '' @ userLanguage_old) t"
  then show "str_in (''const '' @ userLanguage_old) (drop (length userLanguage_old) t)"
    by (auto simp add: prefix_def rule_strings)
next
  fix t
  assume "prefix (''const '' @ userLanguage_old) t"
  then show "str_in userLanguage_old (str_replace userLanguage_old userLanguage_new t)"
    by (auto simp add: prefix_def rule_strings)
qed (simp_all add: rule_strings)

lemma const_mainMenu_survives:
  "str_in (''const '' @ mainMenu_old) s
   \<Longrightarrow> str_in mainMenu_old (str_replace mainMenu_old mainMenu_new s)"
proof (rule str_in_survives_general [where X = "''const '' @ mainMenu_old" and old = mainMenu_old])
  fix t
  assume "prefix mainMenu_old t" and "str_in (''const '' @ mainMenu_old) t"
  then show "str_in (''const '' @ mainMenu_old) (drop (length mainMenu_old) t)"
    by (auto simp add: prefix_def rule_strings)
next
  fix t
  assume "prefix (''const '' @ mainMenu_old) t"
  then show "str_in mainMenu_old (str_replace mainMenu_old mainMenu_new t)"
    by (auto simp add: prefix_def rule_strings)
qed (simp_all add: rule_strings)

lemma userLanguage_survives_mainMenu:
  "str_in userLanguage_old s
   \<Longrightarrow> str_in userLanguage_old (str_replace mainMenu_old mainMenu_new s)"
proof (rule str_in_survives_general [where X = userLanguage_old and old = mainMenu_old])
  fix t
  assume "prefix mainMenu_old t" and "str_in userLanguage_old t"
  then show "str_in userLanguage_old (drop (length mainMenu_old) t)"
    by (auto simp add: prefix_def rule_strings)
next
  fix t
  assume "prefix userLanguage_old t"
  then show "str_in userLanguage_old (str_replace mainMenu_old mainMenu_new t)"
    by (auto simp add: prefix_def rule_strings)
qed (simp_all add: rule_strings)

lemma const_mainMenu_survives_userLanguage:
  "str_in (''const '' @ mainMenu_old) s
   \<Longrightarrow> str_in (''const '' @ mainMenu_old) (str_replace userLanguage_old userLanguage_new s)"
proof (rule str_in_survives_general [where X = "''const '' @ mainMenu_old" and old = userLanguage_old])
  fix t
  assume "prefix userLanguage_old t" and "str_in (''const '' @ mainMenu_old) t"
  then show "str_in (''const '' @ mainMenu_old) (drop (length userLanguage_old) t)"
    by (auto simp add: prefix_def rule_strings)
next
  fix t
  assume "prefix (''const '' @ mainMenu_old) t"
  then show "str_in (''const '' @ mainMenu_old) (str_replace userLanguage_old userLanguage_new t)"
    by (auto simp add: prefix_def rule_strings)
qed (simp_all add: rule_strings)

lemma indented_str_replace:
  assumes "old \<noteq> []" and "hd old \<noteq> CHR '' ''" and "indented s"
  shows "indented (str_replace old new s)"
proof -
  from assms(3) have "take 4 s = ''    ''" by (simp add: indented_iff)
  then have "s = ''    '' @ drop 4 s" by (metis append_take_drop_id)
  then obtain r where s: "s = ''    '' @ r" ..
  from assms(1,2) obtain a os where "old = a # os" "a \<noteq> CHR '' ''" by (cases old) auto
  with s show ?thesis by (simp add: indented_iff)
qed

lemma prefix_shorter:
  assumes "prefix xs (ys @ zs)" and "length xs \<le> length ys"
  shows "prefix xs ys"
proof -
  from assms(1) obtain us where "ys @ zs = xs @ us" by (auto simp add: prefix_def)
  then have "take (length xs) (ys @ zs) = take (length xs) (xs @ us)" by simp
  with assms(2) have "xs = take (length xs) ys" by simp
  then show ?thesis by (metis take_is_prefix)
qed

lemma not_prefix_before_first:
  assumes "old \<noteq> []" and "\<not> str_in old ((c # p) @ butlast old)"
  shows "\<not> prefix old (c # p @ old @ post)"
proof
  assume "prefix old (c # p @ old @ post)"
  moreover have "c # p @ old @ post = ((c # p) @ butlast old) @ (last old # post)"
    using assms(1) by simp
  ultimately have "prefix old (((c # p) @ butlast old) @ (last old # post))" by simp
  moreover have "length old \<le> length ((c # p) @ butlast old)" by simp
  ultimately have "prefix old ((c # p) @ butlast old)" by (rule prefix_shorter)
  with assms(2) show False by simp
qed

lemma str_replace_at_first:
  assumes "old \<noteq> []"
  shows "\<not> str_in old (pre @ butlast old) \<Longrightarrow>
         str_replace old new (pre @ old @ post) = pre @ new @ str_replace old new post"
proof (induction pre)
  case Nil
  from assms obtain a os where "old = a # os" by (cases old) auto
  then show ?case by simp
next
  case (Cons c p)
  from Cons.prems have "\<not> prefix old (c # p @ old @ post)"
    by (rule not_prefix_before_first [OF assms])
  moreover from Cons.prems have "\<not> str_in old (p @ butlast old)" by simp
  ultimately show ?case using Cons.IH assms by simp
qed

lemma str_replace_first_at_first:
  assumes "old \<noteq> []"
  shows "\<not> str_in old (pre @ butlast old) \<Longrightarrow>
         str_replace_first old new (pre @ old @ post) = pre @ new @ post"
proof (induction pre)
  case Nil
  from assms obtain a os where "old = a # os" by (cases old) auto
  then show ?case by simp
next
  case (Cons c p)
  from Cons.prems have "\<not> prefix old (c # p @ old @ post)"
    by (rule not_prefix_before_first [OF assms])
  moreover from Cons.prems have "\<not> str_in old (p @ butlast old)" by simp
  ultimately show ?case using Cons.IH assms by simp
qed

subsection \<open>The rewrite of an indented line\<close>

lemma apply_rule_indented: "indented line \<Longrightarrow> apply_rule old new line = str_replace old new line"
  by (simp add: apply_rule_def str_replace_absent)

lemma fix_line_indented:
  assumes "indented line"
  shows "fix_line line
           = str_replace mainMenu_old mainMenu_new (str_replace userLanguage_old userLanguage_new line)"
proof -
  have "indented (str_replace userLanguage_old userLanguage_new line)"
    using assms by (intro indented_str_replace) (simp_all add: rule_strings)
  with assms show ?thesis by (simp add: fix_line_def apply_rule_indented)
qed

lemma indented_fix_line: "indented line \<Longrightarrow> indented (fix_line line)"
  by (simp add: fix_line_indented indented_str_replace rule_strings)

lemma fix_line_shorter:
  assumes "indented line" and "str_in userLanguage_old line \<or> str_in mainMenu_old line"
  shows "length (fix_line line) < length line"
proof -
  let ?l1 = "str_replace userLanguage_old userLanguage_new line"
  have le2: "length (str_replace mainMenu_old mainMenu_new ?l1) \<le> length ?l1"
    by (rule length_str_replace_le) (simp add: rule_strings)
  show ?thesis
  proof (cases "str_in userLanguage_old line")
    case True
    then have "length ?l1 < length line"
      by (intro length_str_replace_less) (simp_all add: rule_strings)
    with le2 assms(1) show ?thesis by (simp add: fix_line_indented)
  next
    case False
    with assms(2) have "str_in mainMenu_old line" by simp
    then have "length (str_replace mainMenu_old mainMenu_new line) < length line"
      by (intro length_str_replace_less) (simp_all add: rule_strings)
    with False assms(1) show ?thesis by (simp add: fix_line_indented str_replace_absent)
  qed
qed

lemma fix_line_idem_iff:
  "fix_line (fix_line line) = fix_line line \<longleftrightarrow>
   \<not> (indented line \<and> (str_in (''const '' @ userLanguage_old) line
                         \<or> str_in (''const '' @ mainMenu_old) line))"
proof (cases "indented line")
  case False
  then show ?thesis by (simp add: fix_line_not_indented)
next
  case True
  let ?l1 = "str_replace userLanguage_old userLanguage_new line"
  let ?l2 = "str_replace mainMenu_old mainMenu_new ?l1"
  from True have out: "fix_line line = ?l2" by (rule fix_line_indented)
  from True have ind: "indented (fix_line line)" by (rule indented_fix_line)
  show ?thesis
  proof (cases "str_in (''const '' @ userLanguage_old) line \<or> str_in (''const '' @ mainMenu_old) line")
    case False
    then have "\<not> str_in userLanguage_old ?l1" and "\<not> str_in (''const '' @ mainMenu_old) ?l1"
      using userLanguage_from_const_const userLanguage_keeps_const_mainMenu by blast+
    then have "\<not> str_in userLanguage_old ?l2" and "\<not> str_in mainMenu_old ?l2"
      using mainMenu_keeps_userLanguage mainMenu_from_const_const by blast+
    then have "fix_line ?l2 = ?l2" by (rule fix_line_absent)
    with out False show ?thesis by simp
  next
    case both: True
    have "str_in userLanguage_old ?l2 \<or> str_in mainMenu_old ?l2"
    proof (cases "str_in (''const '' @ userLanguage_old) line")
      case True
      then have "str_in userLanguage_old ?l1" by (rule const_userLanguage_survives)
      then have "str_in userLanguage_old ?l2" by (rule userLanguage_survives_mainMenu)
      then show ?thesis ..
    next
      case False
      with both have "str_in (''const '' @ mainMenu_old) line" by simp
      then have "str_in (''const '' @ mainMenu_old) ?l1" by (rule const_mainMenu_survives_userLanguage)
      then have "str_in mainMenu_old ?l2" by (rule const_mainMenu_survives)
      then show ?thesis ..
    qed
    with ind out have "length (fix_line (fix_line line)) < length (fix_line line)"
      by (simp add: fix_line_shorter)
    then have "fix_line (fix_line line) \<noteq> fix_line line" by auto
    with True both show ?thesis by simp
  qed
qed

lemma fix_line_single_occurrence:
  assumes "indented line"
    and "(old, new, other) \<in> {(userLanguage_old, userLanguage_new, mainMenu_old),
                              (mainMenu_old, mainMenu_new, userLanguage_old)}"
    and "line = pre @ old @ post"
    and "\<not> str_in old (pre @ butlast old)" and "\<not> str_in old post"
    and "\<not> str_in other line"
  shows "fix_line line = pre @ new @ post"
proof -
  from assms(2) have ne: "old \<noteq> []" by (auto simp add: rule_strings)
  from ne assms(4) have "str_replace old new (pre @ old @ post) = pre @ new @ str_replace old new post"
    by (rule str_replace_at_first)
  with assms(3,5) have rep: "str_replace old new line = pre @ new @ post"
    by (simp add: str_replace_absent)
  from assms(2) consider
      "old = userLanguage_old" "new = userLanguage_new" "other = mainMenu_old"
    | "old = mainMenu_old" "new = mainMenu_new" "other = userLanguage_old"
    by auto
  then show ?thesis
  proof cases
    case 1
    with assms(6) have "\<not> str_in mainMenu_old (str_replace userLanguage_old userLanguage_new line)"
      using userLanguage_keeps_mainMenu by blast
    with 1 rep assms(1) show ?thesis by (simp add: fix_line_indented str_replace_absent)
  next
    case 2
    with rep assms(1,6) show ?thesis by (simp add: fix_line_indented str_replace_absent)
  qed
qed

subsection \<open>Reading back what was written\<close>

lemma readlines_Cons_line:
  "is_line l \<Longrightarrow> last l = newline \<Longrightarrow> readlines (l @ s) = l # readlines s"
proof (induction l)
  case Nil
  then show ?case by (simp add: is_line_def)
next
  case (Cons c l)
  show ?case
  proof (cases l)
    case Nil
    with Cons.prems show ?thesis by simp
  next
    case (Cons d l')
    with Cons.prems have "is_line l" "last l = newline" "c \<noteq> newline"
      by (auto simp add: is_line_def)
    with Cons.IH show ?thesis by simp
  qed
qed

lemma readlines_last_line:
  "is_line l \<Longrightarrow> last l \<noteq> newline \<Longrightarrow> readlines l = [l]"
proof (induction l)
  case Nil
  then show ?case by (simp add: is_line_def)
next
  case (Cons c l)
  show ?case
  proof (cases l)
    case Nil
    with Cons.prems show ?thesis by simp
  next
    case (Cons d l')
    with Cons.prems have "is_line l" "last l \<noteq> newline" "c \<noteq> newline"
      by (auto simp add: is_line_def)
    with Cons.IH show ?thesis by simp
  qed
qed

lemma readlines_concat: "lines_ok ls \<Longrightarrow> readlines (concat ls) = ls"
proof (induction ls rule: lines_ok.induct)
  case 1
  then show ?case by simp
next
  case (2 l)
  then show ?case
    by (cases "last l = newline") (simp_all add: readlines_Cons_line [where s = "[]", simplified] readlines_last_line)
next
  case (3 l v va)
  then show ?case by (simp add: readlines_Cons_line)
qed

lemma lines_ok_readlines: "lines_ok (readlines s)"
proof (induction s)
  case Nil
  then show ?case by simp
next
  case (Cons c s)
  show ?case
  proof (cases "c = newline")
    case True
    with Cons show ?thesis by (cases "readlines s") (simp_all add: is_line_def)
  next
    case False
    show ?thesis
    proof (cases "readlines s")
      case Nil
      with False show ?thesis by (simp add: is_line_def)
    next
      case rest: (Cons l ls)
      with Cons.IH False show ?thesis
        by (cases ls) (auto simp add: is_line_def)
    qed
  qed
qed

lemma prefix_snoc_other:
  assumes "x \<notin> set old"
  shows "prefix old (b @ [x]) \<longleftrightarrow> prefix old b"
proof
  assume "prefix old (b @ [x])"
  then have "prefix old b \<or> old = b @ [x]" by auto
  with assms show "prefix old b" by auto
next
  assume "prefix old b"
  then show "prefix old (b @ [x])" by simp
qed

lemma str_replace_snoc:
  assumes "old \<noteq> []" and "x \<notin> set old"
  shows "str_replace old new (b @ [x]) = str_replace old new b @ [x]"
proof (induction "length b" arbitrary: b rule: less_induct)
  case less
  from assms obtain a os where old: "old = a # os" "x \<noteq> a" by (cases old) auto
  show ?case
  proof (cases b)
    case Nil
    with old show ?thesis by simp
  next
    case (Cons c cs)
    show ?thesis
    proof (cases "prefix old b")
      case True
      then have len: "length old \<le> length b" by (rule prefix_length_le)
      let ?r = "drop (length old) b"
      have "length ?r < length b" using Cons assms(1) by simp
      then have "str_replace old new (?r @ [x]) = str_replace old new ?r @ [x]"
        by (rule less.hyps)
      moreover have "prefix old (b @ [x])" using True prefix_snoc_other [OF assms(2)] by blast
      moreover have "drop (length old) (b @ [x]) = ?r @ [x]" using len by simp
      ultimately show ?thesis using True Cons assms(1) by simp
    next
      case False
      then have "\<not> prefix old (b @ [x])" using prefix_snoc_other [OF assms(2)] by blast
      moreover have "str_replace old new (cs @ [x]) = str_replace old new cs @ [x]"
        using Cons by (intro less.hyps) simp
      ultimately show ?thesis using False Cons assms(1) by simp
    qed
  qed
qed

lemma set_str_replace:
  "old \<noteq> [] \<Longrightarrow> set (str_replace old new s) \<subseteq> set s \<union> set new"
proof (induction old new s rule: str_replace.induct)
  case (1 old new)
  then show ?case by simp
next
  case (2 old new c cs)
  show ?case
  proof (cases "prefix old (c # cs)")
    case True
    with 2 have "set (str_replace old new (drop (length old) (c # cs)))
                   \<subseteq> set (drop (length old) (c # cs)) \<union> set new"
      by simp
    moreover have "set (drop (length old) (c # cs)) \<subseteq> set (c # cs)" by (rule set_drop_subset)
    ultimately show ?thesis using True "2.prems" by auto
  next
    case False
    with 2 show ?thesis by auto
  qed
qed

lemma newline_fix_line:
  assumes "indented b" and "newline \<notin> set b"
  shows "newline \<notin> set (fix_line b)"
proof -
  let ?b1 = "str_replace userLanguage_old userLanguage_new b"
  have "set ?b1 \<subseteq> set b \<union> set userLanguage_new"
    by (rule set_str_replace) (simp add: rule_strings)
  with assms(2) have "newline \<notin> set ?b1" by (auto simp add: rule_strings newline_def)
  moreover have "set (str_replace mainMenu_old mainMenu_new ?b1) \<subseteq> set ?b1 \<union> set mainMenu_new"
    by (rule set_str_replace) (simp add: rule_strings)
  ultimately have "newline \<notin> set (str_replace mainMenu_old mainMenu_new ?b1)"
    by (auto simp add: rule_strings newline_def)
  with assms(1) show ?thesis by (simp add: fix_line_indented)
qed

lemma fix_line_snoc_newline:
  assumes "indented (b @ [newline])"
  shows "fix_line (b @ [newline]) = fix_line b @ [newline]"
proof -
  from assms have "take 4 (b @ [newline]) = ''    ''" by (simp add: indented_iff)
  then have "length b \<ge> 4"
    by (cases b rule: rev_cases; cases "length b \<ge> 4") (auto simp add: newline_def)
  with assms have ind: "indented b" by (simp add: indented_iff)
  have "str_replace userLanguage_old userLanguage_new (b @ [newline])
          = str_replace userLanguage_old userLanguage_new b @ [newline]"
    by (rule str_replace_snoc) (simp_all add: rule_strings newline_def)
  moreover have "str_replace mainMenu_old mainMenu_new
                   (str_replace userLanguage_old userLanguage_new b @ [newline])
          = str_replace mainMenu_old mainMenu_new
                   (str_replace userLanguage_old userLanguage_new b) @ [newline]"
    by (rule str_replace_snoc) (simp_all add: rule_strings newline_def)
  ultimately show ?thesis using assms ind by (simp add: fix_line_indented)
qed

lemma is_line_fix_line:
  assumes "is_line l"
  shows "is_line (fix_line l) \<and> (last (fix_line l) = newline \<longleftrightarrow> last l = newline)"
proof (cases "indented l")
  case False
  with assms show ?thesis by (simp add: fix_line_not_indented)
next
  case True
  from assms obtain b x where l: "l = b @ [x]" "newline \<notin> set b"
    by (cases l rule: rev_cases) (auto simp add: is_line_def)
  show ?thesis
  proof (cases "x = newline")
    case nl: True
    with True l have eq: "fix_line l = fix_line b @ [newline]"
      by (simp add: fix_line_snoc_newline)
    from True l nl have "take 4 (b @ [newline]) = ''    ''" by (simp add: indented_iff)
    then have "length b \<ge> 4"
      by (cases "length b \<ge> 4") (auto simp add: newline_def)
    with True l have "indented b" by (simp add: indented_iff)
    then have "newline \<notin> set (fix_line b)" using l(2) by (rule newline_fix_line)
    with eq l nl show ?thesis by (simp add: is_line_def)
  next
    case other: False
    with l have no: "newline \<notin> set l" by simp
    with True have no': "newline \<notin> set (fix_line l)" by (rule newline_fix_line)
    from True have "indented (fix_line l)" by (rule indented_fix_line)
    then have ne: "fix_line l \<noteq> []" by (auto simp add: indented_iff)
    from ne no' have "last (fix_line l) \<noteq> newline" using last_in_set by metis
    moreover from no' have "newline \<notin> set (butlast (fix_line l))"
      using in_set_butlastD by metis
    ultimately show ?thesis using ne other l by (simp add: is_line_def)
  qed
qed

lemma lines_ok_map_fix_line: "lines_ok ls \<Longrightarrow> lines_ok (map fix_line ls)"
proof (induction ls rule: lines_ok.induct)
  case 1
  then show ?case by simp
next
  case (2 l)
  then show ?case by (simp add: is_line_fix_line)
next
  case (3 l v va)
  then show ?case by (simp add: is_line_fix_line)
qed

lemma reread_line_count:
  "readlines (concat (map fix_line (readlines s))) = map fix_line (readlines s)"
  by (intro readlines_concat lines_ok_map_fix_line lines_ok_readlines)

lemma fix_syntax_success:
  assumes "resource w = Some s" and "readable w" and "read_fault w = None" and "writable w"
  shows "fix_syntax w
           = (None, w\<lparr>resource := Some (concat (map fix_line (readlines s))),
                       stdout := stdout w @ confirmation @ [newline],
                       trace := trace w @ [OpenRead, ReadLines, OpenWrite, WriteLines]\<rparr>)"
  using assms
  by (simp add: fix_syntax_def open_read_def read_lines_def open_write_def writelines_def
      print_def called_def rewrite_lines_map)

lemma fix_syntax_open_fails:
  assumes "fst (open_read w) = Inl e"
  shows "fix_syntax w = (Some e, w\<lparr>trace := trace w @ [OpenRead]\<rparr>)"
  using assms
  by (auto simp add: fix_syntax_def open_read_def called_def split: option.splits if_splits)

lemma fix_syntax_read_fails:
  assumes "fst (open_read w) = Inr f" and "fst (read_lines f (snd (open_read w))) = Inl e"
  shows "fix_syntax w = (Some e, w\<lparr>trace := trace w @ [OpenRead, ReadLines]\<rparr>)"
  using assms
  by (auto simp add: fix_syntax_def open_read_def read_lines_def called_def
      split: option.splits if_splits)

subsection \<open>The claims\<close>

text \<open>
  C1 (as amended). On a line that passes the indentation test and contains a target, the
  loop replaces every occurrence of \<open>const userLanguage =\<close> by \<open>userLanguage =\<close> and
  then, in the result, every occurrence of \<open>const mainMenu =\<close> by \<open>mainMenu =\<close>.
  When the line holds one target, once, and not the other target, the output is the
  input with that single occurrence replaced, which is also what replacing the first
  occurrence only gives.
\<close>

theorem every_occurrence_replaced:
  assumes "i < length lines" and "indented (lines ! i)"
    and "str_in userLanguage_old (lines ! i) \<or> str_in mainMenu_old (lines ! i)"
  shows "\<exists>out. rewrite_lines lines = Inr out
     \<and> out ! i = str_replace mainMenu_old mainMenu_new
                   (str_replace userLanguage_old userLanguage_new (lines ! i))
     \<and> ((old, new, other) \<in> {(userLanguage_old, userLanguage_new, mainMenu_old),
                                (mainMenu_old, mainMenu_new, userLanguage_old)}
          \<and> lines ! i = pre @ old @ post
          \<and> \<not> str_in old (pre @ butlast old) \<and> \<not> str_in old post
          \<and> \<not> str_in other (lines ! i)
        \<longrightarrow> out ! i = pre @ new @ post
            \<and> out ! i = str_replace_first old new (lines ! i))"
proof -
  have out: "rewrite_lines lines = Inr (map fix_line lines)" by (rule rewrite_lines_map)
  have all: "fix_line (lines ! i) = str_replace mainMenu_old mainMenu_new
                   (str_replace userLanguage_old userLanguage_new (lines ! i))"
    using assms(2) by (rule fix_line_indented)
  have one: "fix_line (lines ! i) = pre @ new @ post
               \<and> fix_line (lines ! i) = str_replace_first old new (lines ! i)"
    if h: "(old, new, other) \<in> {(userLanguage_old, userLanguage_new, mainMenu_old),
                                (mainMenu_old, mainMenu_new, userLanguage_old)}"
       "lines ! i = pre @ old @ post"
       "\<not> str_in old (pre @ butlast old)" "\<not> str_in old post"
       "\<not> str_in other (lines ! i)"
  proof -
    from h(1) have ne: "old \<noteq> []" by (auto simp add: rule_strings)
    have "fix_line (lines ! i) = pre @ new @ post"
      using assms(2) h by (rule fix_line_single_occurrence)
    moreover have "str_replace_first old new (pre @ old @ post) = pre @ new @ post"
      using ne h(3) by (rule str_replace_first_at_first)
    ultimately show ?thesis using h(2) by simp
  qed
  from out all one assms(1) show ?thesis by auto
qed

theorem every_occurrence_replaced_witness:
  "indented ''    const mainMenu = a + b;''
   \<and> str_in mainMenu_old ''    const mainMenu = a + b;''
   \<and> ''    const mainMenu = a + b;'' = ''    '' @ mainMenu_old @ '' a + b;''
   \<and> \<not> str_in mainMenu_old (''    '' @ butlast mainMenu_old)
   \<and> \<not> str_in mainMenu_old '' a + b;''
   \<and> \<not> str_in userLanguage_old ''    const mainMenu = a + b;''
   \<and> (\<exists>out. rewrite_lines [''{'', ''    const mainMenu = a + b;''] = Inr out
     \<and> out ! 1 = str_replace mainMenu_old mainMenu_new
                   (str_replace userLanguage_old userLanguage_new ''    const mainMenu = a + b;'')
     \<and> out ! 1 = ''    mainMenu = a + b;''
     \<and> out ! 1 = str_replace_first mainMenu_old mainMenu_new ''    const mainMenu = a + b;'')"
  using every_occurrence_replaced
    [of 1 "[''{'', ''    const mainMenu = a + b;'']" mainMenu_old mainMenu_new userLanguage_old
        "''    ''" "'' a + b;''"]
  by (simp add: indented_iff rule_strings)

text \<open>
  The claim as first stated, "exactly one occurrence (the first) is replaced", fails on
  a line with two occurrences: both are replaced.
\<close>

theorem first_occurrence_only_counterexample:
  "indented ''    const userLanguage = a; const userLanguage = b;''
   \<and> str_in userLanguage_old ''    const userLanguage = a; const userLanguage = b;''
   \<and> rewrite_lines [''    const userLanguage = a; const userLanguage = b;'']
       = Inr [''    userLanguage = a; userLanguage = b;'']
   \<and> str_replace_first userLanguage_old userLanguage_new
        ''    const userLanguage = a; const userLanguage = b;''
       = ''    userLanguage = a; const userLanguage = b;''
   \<and> rewrite_lines [''    const userLanguage = a; const userLanguage = b;'']
       \<noteq> Inr [str_replace_first userLanguage_old userLanguage_new
                 ''    const userLanguage = a; const userLanguage = b;'']"
  by (simp add: rewrite_lines_map fix_line_def apply_rule_def indented_iff rule_strings)

text \<open>
  C2 (as amended). The indentation test holds exactly when the first four characters of
  the line are four spaces. A line that passes it comes out of the loop with all
  occurrences of the targets replaced; a line that fails it, such as one indented by
  fewer than four spaces, comes out unchanged. So the loop changes a line exactly when
  its first four characters are four spaces and it contains a target.
\<close>

theorem four_space_gate:
  assumes "i < length lines"
  shows "\<exists>out. rewrite_lines lines = Inr out
     \<and> (indented (lines ! i) \<longleftrightarrow> take 4 (lines ! i) = ''    '')
     \<and> out ! i = (if take 4 (lines ! i) = ''    ''
                  then str_replace mainMenu_old mainMenu_new
                         (str_replace userLanguage_old userLanguage_new (lines ! i))
                  else lines ! i)
     \<and> (out ! i \<noteq> lines ! i \<longleftrightarrow>
          take 4 (lines ! i) = ''    ''
          \<and> (str_in userLanguage_old (lines ! i) \<or> str_in mainMenu_old (lines ! i)))"
proof -
  let ?l = "lines ! i"
  have out: "rewrite_lines lines = Inr (map fix_line lines)" by (rule rewrite_lines_map)
  have gate: "indented ?l \<longleftrightarrow> take 4 ?l = ''    ''" by (rule indented_iff)
  have val: "fix_line ?l = (if take 4 ?l = ''    ''
                  then str_replace mainMenu_old mainMenu_new
                         (str_replace userLanguage_old userLanguage_new ?l)
                  else ?l)"
    using gate by (simp add: fix_line_indented fix_line_not_indented)
  have chg: "fix_line ?l \<noteq> ?l \<longleftrightarrow>
          take 4 ?l = ''    '' \<and> (str_in userLanguage_old ?l \<or> str_in mainMenu_old ?l)"
  proof (cases "indented ?l \<and> (str_in userLanguage_old ?l \<or> str_in mainMenu_old ?l)")
    case True
    then have "length (fix_line ?l) < length ?l" by (simp add: fix_line_shorter)
    then have "fix_line ?l \<noteq> ?l" by auto
    with True gate show ?thesis by simp
  next
    case False
    then have "fix_line ?l = ?l"
      using fix_line_not_indented fix_line_absent by blast
    with False gate show ?thesis by simp
  qed
  from out gate val chg assms show ?thesis by simp
qed

theorem four_space_gate_witness:
  "(\<exists>out. rewrite_lines [''    const userLanguage = lang;'', ''   const mainMenu = m;''] = Inr out
      \<and> indented ''    const userLanguage = lang;''
      \<and> out ! 0 = ''    userLanguage = lang;''
      \<and> out ! 0 \<noteq> ''    const userLanguage = lang;'')
   \<and> (\<exists>out. rewrite_lines [''    const userLanguage = lang;'', ''   const mainMenu = m;''] = Inr out
      \<and> \<not> indented ''   const mainMenu = m;''
      \<and> str_in mainMenu_old ''   const mainMenu = m;''
      \<and> out ! 1 = ''   const mainMenu = m;'')"
  using four_space_gate [of 0 "[''    const userLanguage = lang;'', ''   const mainMenu = m;'']"]
    four_space_gate [of 1 "[''    const userLanguage = lang;'', ''   const mainMenu = m;'']"]
  by (simp add: indented_iff rule_strings)

text \<open>
  The claim as first stated, "the test holds whenever the first four characters contain
  a space", fails on a line indented by one space: it contains a target and is left as
  it is.
\<close>

theorem single_space_counterexample:
  "CHR '' '' \<in> set (take 4 '' const userLanguage = lang;'')
   \<and> str_in userLanguage_old '' const userLanguage = lang;''
   \<and> \<not> indented '' const userLanguage = lang;''
   \<and> rewrite_lines ['' const userLanguage = lang;''] = Inr ['' const userLanguage = lang;'']
   \<and> str_replace userLanguage_old userLanguage_new '' const userLanguage = lang;''
       \<noteq> '' const userLanguage = lang;''"
  by (simp add: rewrite_lines_map fix_line_def apply_rule_def indented_iff rule_strings)

text \<open>
  C3. The loop never raises, and the list it leaves has as many lines as the list that
  was read: no line is added or removed. The same holds for the file: when the script
  succeeds, the text it has written splits into as many lines as the text it read.
\<close>

theorem line_count_preserved:
  "(\<exists>out. rewrite_lines lines = Inr out \<and> length out = length lines)
   \<and> (\<exists>s'. fix_syntax \<lparr>resource = Some s, readable = True, read_fault = None,
                          writable = True, stdout = so, trace = tr\<rparr>
              = (None, \<lparr>resource = Some s', readable = True, read_fault = None,
                        writable = True, stdout = so @ confirmation @ [newline],
                        trace = tr @ [OpenRead, ReadLines, OpenWrite, WriteLines]\<rparr>)
           \<and> length (readlines s') = length (readlines s))"
proof -
  have "\<exists>out. rewrite_lines lines = Inr out \<and> length out = length lines"
    by (simp add: rewrite_lines_map)
  moreover have "fix_syntax \<lparr>resource = Some s, readable = True, read_fault = None,
                          writable = True, stdout = so, trace = tr\<rparr>
      = (None, \<lparr>resource = Some (concat (map fix_line (readlines s))), readable = True,
                read_fault = None, writable = True, stdout = so @ confirmation @ [newline],
                trace = tr @ [OpenRead, ReadLines, OpenWrite, WriteLines]\<rparr>)"
    by (simp add: fix_syntax_success)
  moreover have "length (readlines (concat (map fix_line (readlines s)))) = length (readlines s)"
    by (simp add: reread_line_count)
  ultimately show ?thesis by blast
qed

text \<open>
  C4. A line that contains neither \<open>const userLanguage =\<close> nor \<open>const mainMenu =\<close>
  comes out of the loop exactly as it went in.
\<close>

theorem non_matching_line_unchanged:
  assumes "i < length lines"
    and "\<not> str_in userLanguage_old (lines ! i)"
    and "\<not> str_in mainMenu_old (lines ! i)"
  shows "\<exists>out. rewrite_lines lines = Inr out \<and> out ! i = lines ! i"
  using assms by (simp add: rewrite_lines_map fix_line_absent)

theorem non_matching_line_unchanged_witness:
  "\<not> str_in userLanguage_old ''    let x = 1;''
   \<and> \<not> str_in mainMenu_old ''    let x = 1;''
   \<and> indented ''    let x = 1;''
   \<and> (\<exists>out. rewrite_lines [''    let x = 1;'', ''}''] = Inr out
     \<and> out ! 0 = ''    let x = 1;'')"
  using non_matching_line_unchanged [of 0 "[''    let x = 1;'', ''}'']"]
  by (simp add: indented_iff userLanguage_old_def mainMenu_old_def)

text \<open>
  C5. A line that fails the indentation test comes out unchanged, whether or not it
  contains a target; so does every line with no space among its first four characters.
  The line \<open>const userLanguage = 'en';\<close> with its newline contains a target, starts
  at column 0, and is passed through.
\<close>

theorem unindented_line_unchanged:
  "(\<not> indented line \<longrightarrow> fix_line line = line)
   \<and> (CHR '' '' \<notin> set (take 4 line) \<longrightarrow> fix_line line = line)
   \<and> str_in userLanguage_old (''const userLanguage = '' @ [CHR 0x27] @ ''en'' @ [CHR 0x27] @ '';'' @ [newline])
   \<and> rewrite_lines [''const userLanguage = '' @ [CHR 0x27] @ ''en'' @ [CHR 0x27] @ '';'' @ [newline]]
       = Inr [''const userLanguage = '' @ [CHR 0x27] @ ''en'' @ [CHR 0x27] @ '';'' @ [newline]]"
proof -
  have a: "\<not> indented line \<longrightarrow> fix_line line = line"
    by (simp add: fix_line_not_indented)
  have "CHR '' '' \<notin> set (take 4 line) \<Longrightarrow> \<not> indented line"
    by (auto simp add: indented_iff)
  then have b: "CHR '' '' \<notin> set (take 4 line) \<longrightarrow> fix_line line = line"
    by (simp add: fix_line_not_indented)
  have c: "str_in userLanguage_old
             (''const userLanguage = '' @ [CHR 0x27] @ ''en'' @ [CHR 0x27] @ '';'' @ [newline])"
    by (simp add: userLanguage_old_def)
  have "\<not> indented (''const userLanguage = '' @ [CHR 0x27] @ ''en'' @ [CHR 0x27] @ '';'' @ [newline])"
    by (simp add: indented_iff)
  then have d: "rewrite_lines [''const userLanguage = '' @ [CHR 0x27] @ ''en'' @ [CHR 0x27] @ '';'' @ [newline]]
       = Inr [''const userLanguage = '' @ [CHR 0x27] @ ''en'' @ [CHR 0x27] @ '';'' @ [newline]]"
    by (simp add: rewrite_lines_map fix_line_not_indented)
  from a b c d show ?thesis by blast
qed

theorem unindented_line_unchanged_witness:
  "\<not> indented ''const mainMenu = 1''
   \<and> CHR '' '' \<notin> set (take 4 ''const mainMenu = 1'')
   \<and> fix_line ''const mainMenu = 1'' = ''const mainMenu = 1''"
  using unindented_line_unchanged [of "''const mainMenu = 1''"]
  by (simp add: indented_iff)

text \<open>
  C6 (as amended). Rewriting the output once more changes nothing exactly when no
  indented line of the input contains \<open>const const userLanguage =\<close> or
  \<open>const const mainMenu =\<close>.
\<close>

theorem idempotent_iff:
  "(\<exists>out. rewrite_lines lines = Inr out \<and> rewrite_lines out = Inr out) \<longleftrightarrow>
   (\<forall>line \<in> set lines. indented line \<longrightarrow>
      \<not> str_in (''const '' @ userLanguage_old) line \<and> \<not> str_in (''const '' @ mainMenu_old) line)"
proof -
  have "(\<exists>out. rewrite_lines lines = Inr out \<and> rewrite_lines out = Inr out)
          \<longleftrightarrow> map fix_line (map fix_line lines) = map fix_line lines"
    by (auto simp add: rewrite_lines_map)
  also have "\<dots> \<longleftrightarrow> (\<forall>line \<in> set lines. fix_line (fix_line line) = fix_line line)"
    by simp
  also have "\<dots> \<longleftrightarrow> (\<forall>line \<in> set lines. indented line \<longrightarrow>
      \<not> str_in (''const '' @ userLanguage_old) line \<and> \<not> str_in (''const '' @ mainMenu_old) line)"
    by (simp add: fix_line_idem_iff)
  finally show ?thesis .
qed

theorem idempotent_iff_witness:
  "indented ''    const userLanguage = 1''
   \<and> \<not> str_in (''const '' @ userLanguage_old) ''    const userLanguage = 1''
   \<and> \<not> str_in (''const '' @ mainMenu_old) ''    const userLanguage = 1''
   \<and> \<not> indented ''const const mainMenu = 2''
   \<and> (\<exists>out. rewrite_lines [''    const userLanguage = 1'', ''const const mainMenu = 2''] = Inr out
          \<and> rewrite_lines out = Inr out)"
  using idempotent_iff [of "[''    const userLanguage = 1'', ''const const mainMenu = 2'']"]
  by (simp add: indented_iff rule_strings)

text \<open>
  The claim as first stated, idempotence on every list of lines, fails on a line with a
  doubled \<open>const\<close>: the first run leaves a target behind, and the second run
  rewrites it.
\<close>

theorem idempotence_counterexample:
  "rewrite_lines [''    const const userLanguage = 1''] = Inr [''    const userLanguage = 1'']
   \<and> rewrite_lines [''    const userLanguage = 1''] = Inr [''    userLanguage = 1'']
   \<and> rewrite_lines [''    const userLanguage = 1''] \<noteq> Inr [''    const userLanguage = 1'']"
  by (simp add: rewrite_lines_map fix_line_def apply_rule_def indented_iff rule_strings)

text \<open>
  C7. The line \<open>    const userLanguage = detectLanguage(msg);\<close> (four spaces, newline
  at the end) is rewritten into \<open>    userLanguage = detectLanguage(msg);\<close>.
\<close>

theorem userLanguage_scenario:
  "rewrite_lines [''    const userLanguage = detectLanguage(msg);'' @ [newline]]
     = Inr [''    userLanguage = detectLanguage(msg);'' @ [newline]]"
  by (simp add: rewrite_lines_map fix_line_def apply_rule_def indented_iff
      userLanguage_old_def userLanguage_new_def mainMenu_old_def mainMenu_new_def)

text \<open>
  C8. When \<open>open\<close> for reading raises, or \<open>readlines\<close> on the opened file raises,
  the script ends with that error. The only calls it has made on the file are the
  \<open>open\<close> for reading and, in the second case, \<open>readlines\<close>: the file is never
  opened for writing and nothing is written. The text of the file is the one it started
  with, and nothing is printed.
\<close>

theorem read_failure_leaves_resource:
  assumes "fst (open_read w) = Inl e
           \<or> (\<exists>f. fst (open_read w) = Inr f \<and> fst (read_lines f (snd (open_read w))) = Inl e)"
  shows "fst (fix_syntax w) = Some e
     \<and> resource (snd (fix_syntax w)) = resource w
     \<and> stdout (snd (fix_syntax w)) = stdout w
     \<and> (\<exists>evs. snd (fix_syntax w) = w\<lparr>trace := trace w @ evs\<rparr>
            \<and> (evs = [OpenRead] \<or> evs = [OpenRead, ReadLines])
            \<and> OpenWrite \<notin> set evs \<and> WriteLines \<notin> set evs)"
proof -
  from assms consider
      (at_open) "fst (open_read w) = Inl e"
    | (at_read) f where "fst (open_read w) = Inr f"
        "fst (read_lines f (snd (open_read w))) = Inl e"
    by blast
  then show ?thesis
  proof cases
    case at_open
    then have "fix_syntax w = (Some e, w\<lparr>trace := trace w @ [OpenRead]\<rparr>)"
      by (rule fix_syntax_open_fails)
    then show ?thesis by (auto intro: exI [of _ "[OpenRead]"])
  next
    case at_read
    then have "fix_syntax w = (Some e, w\<lparr>trace := trace w @ [OpenRead, ReadLines]\<rparr>)"
      by (rule fix_syntax_read_fails)
    then show ?thesis by (auto intro: exI [of _ "[OpenRead, ReadLines]"])
  qed
qed

theorem read_failure_leaves_resource_witness:
  "fst (open_read \<lparr>resource = None, readable = True, read_fault = None, writable = True,
                   stdout = [], trace = []\<rparr>) = Inl FileNotFoundError
   \<and> fix_syntax \<lparr>resource = None, readable = True, read_fault = None, writable = True,
                  stdout = [], trace = []\<rparr>
       = (Some FileNotFoundError,
          \<lparr>resource = None, readable = True, read_fault = None, writable = True,
           stdout = [], trace = [OpenRead]\<rparr>)
   \<and> fst (open_read \<lparr>resource = Some ''x'', readable = True, read_fault = Some UnicodeDecodeError,
                      writable = True, stdout = [], trace = []\<rparr>) = Inr ''x''
   \<and> fst (read_lines ''x''
            (snd (open_read \<lparr>resource = Some ''x'', readable = True,
                              read_fault = Some UnicodeDecodeError,
                              writable = True, stdout = [], trace = []\<rparr>)))
       = Inl UnicodeDecodeError
   \<and> fix_syntax \<lparr>resource = Some ''x'', readable = True, read_fault = Some UnicodeDecodeError,
                  writable = True, stdout = [], trace = []\<rparr>
       = (Some UnicodeDecodeError,
          \<lparr>resource = Some ''x'', readable = True, read_fault = Some UnicodeDecodeError,
           writable = True, stdout = [], trace = [OpenRead, ReadLines]\<rparr>)"
  using read_failure_leaves_resource
      [of "\<lparr>resource = None, readable = True, read_fault = None, writable = True,
            stdout = [], trace = []\<rparr>" FileNotFoundError]
    read_failure_leaves_resource
      [of "\<lparr>resource = Some ''x'', readable = True, read_fault = Some UnicodeDecodeError,
            writable = True, stdout = [], trace = []\<rparr>" UnicodeDecodeError]
  by (simp add: fix_syntax_def open_read_def read_lines_def called_def)

text \<open>
  C9. When the script ends without an error, what it has added to the standard output
  is the confirmation message followed by a newline, and nothing else.
\<close>

theorem success_prints_confirmation:
  "fst (fix_syntax w) = None \<Longrightarrow>
   stdout (snd (fix_syntax w)) = stdout w @ ''Fixed duplicate const declarations'' @ [newline]"
  by (auto simp add: fix_syntax_def open_read_def read_lines_def open_write_def writelines_def
      print_def called_def confirmation_def rewrite_lines_map
      split: option.splits if_splits)

theorem success_prints_confirmation_witness:
  "fst (fix_syntax \<lparr>resource = Some ''x'', readable = True, read_fault = None,
                     writable = True, stdout = [], trace = []\<rparr>) = None
   \<and> stdout (snd (fix_syntax \<lparr>resource = Some ''x'', readable = True, read_fault = None,
                               writable = True, stdout = [], trace = []\<rparr>))
     = ''Fixed duplicate const declarations'' @ [newline]"
  using success_prints_confirmation
    [of "\<lparr>resource = Some ''x'', readable = True, read_fault = None,
          writable = True, stdout = [], trace = []\<rparr>"]
  by (simp add: fix_syntax_def open_read_def read_lines_def open_write_def called_def
      rewrite_lines_map)

text \<open>
  C10. The output line at an index is a function of the input line at that index alone:
  two lists that agree at index \<open>i\<close> are rewritten into lists that agree at index \<open>i\<close>,
  and the line stays at its index.
\<close>

theorem per_line_noninterference:
  assumes "i < length xs" and "i < length ys" and "xs ! i = ys ! i"
  shows "\<exists>xs' ys'. rewrite_lines xs = Inr xs' \<and> rewrite_lines ys = Inr ys'
           \<and> xs' ! i = ys' ! i \<and> xs' ! i = fix_line (xs ! i)"
  using assms by (simp add: rewrite_lines_map)

theorem per_line_noninterference_witness:
  "[''a'', ''    const mainMenu = 1''] ! 1
     = [''    const userLanguage = 2'', ''    const mainMenu = 1'', ''b''] ! 1
   \<and> (\<exists>xs' ys'. rewrite_lines [''a'', ''    const mainMenu = 1''] = Inr xs'
      \<and> rewrite_lines [''    const userLanguage = 2'', ''    const mainMenu = 1'', ''b''] = Inr ys'
      \<and> xs' ! 1 = ys' ! 1
      \<and> xs' ! 1 = fix_line ''    const mainMenu = 1'')"
  using per_line_noninterference
    [of 1 "[''a'', ''    const mainMenu = 1'']"
        "[''    const userLanguage = 2'', ''    const mainMenu = 1'', ''b'']"]
  by simp

end
